theory Spec2Isabelle
  imports Main "HOL-Library.AList" "HOL-Library.Sublist"
begin

section \<open>CMap support of pdfminer (cmapdb.py)\<close>

text \<open>
  The development embeds \<^verbatim>\<open>pdfminer/cmapdb.py\<close>. A Python 2 \<^verbatim>\<open>str\<close> is a string
  of bytes, which is exactly \<^typ>\<open>string\<close>; \<^verbatim>\<open>ord(c)\<close> is \<^term>\<open>of_char c :: int\<close>.
  Python integers are \<^typ>\<open>int\<close>. Exceptions are values of \<open>error\<close>, and a
  method that can raise returns \<open>error + 'a\<close>.
\<close>

datatype error =
    IndexError | TypeError | StructError | KeyError | AttributeError
  | AssertionError | ValueError | CMapNotFound | PSSyntaxError | PSTypeError

subsection \<open>The trie store\<close>

text \<open>
  \<^verbatim>\<open>code2cid\<close> is a nested dict: a key is the integer of a byte, a value is either
  an \<^verbatim>\<open>int\<close> (a character id) or another dict. A dict is an association list read
  with \<^const>\<open>map_of\<close> and written with \<^const>\<open>AList.update\<close> (Python's \<^verbatim>\<open>d[c] = v\<close>).
\<close>

datatype node = Cid int | Dict "(int \<times> node) list"

type_synonym store = "(int \<times> node) list"

text \<open>
  \<^verbatim>\<open>FileCMap.add_code2cid\<close>. The loop over \<^verbatim>\<open>code[:-1]\<close> descends or creates a fresh
  dict; the last byte is bound to the cid. Where \<^verbatim>\<open>d[c]\<close> is an \<^verbatim>\<open>int\<close>, the
  variable \<^verbatim>\<open>d\<close> becomes that int and the next use of it (\<^verbatim>\<open>c in d\<close> or
  \<^verbatim>\<open>d[c] = cid\<close>) raises TypeError; an empty code raises IndexError at
  \<^verbatim>\<open>code[-1]\<close>. Both happen before any assignment to the store.
\<close>

fun add_code2cid :: "store \<Rightarrow> string \<Rightarrow> int \<Rightarrow> error + store" where
  "add_code2cid d [] cid = Inl IndexError"
| "add_code2cid d [c] cid = Inr (AList.update (of_char c) (Cid cid) d)"
| "add_code2cid d (c # cs) cid =
     (case map_of d (of_char c) of
        Some (Dict t) \<Rightarrow>
          (case add_code2cid t cs cid of
             Inl e \<Rightarrow> Inl e
           | Inr t' \<Rightarrow> Inr (AList.update (of_char c) (Dict t') d))
      | Some (Cid i) \<Rightarrow> Inl TypeError
      | None \<Rightarrow>
          (case add_code2cid [] cs cid of
             Inl e \<Rightarrow> Inl e
           | Inr t' \<Rightarrow> Inr (AList.update (of_char c) (Dict t') d)))"

text \<open>
  \<^verbatim>\<open>CMap.decode\<close>. The generator is the list of the ids it yields; \<open>root\<close> is
  \<^verbatim>\<open>self.code2cid\<close> and \<open>d\<close> the current node.
\<close>

fun decode_loop :: "store \<Rightarrow> store \<Rightarrow> string \<Rightarrow> int list" where
  "decode_loop root d [] = []"
| "decode_loop root d (c # code) =
     (case map_of d (of_char c) of
        Some (Cid i) \<Rightarrow> i # decode_loop root root code
      | Some (Dict t) \<Rightarrow> decode_loop root t code
      | None \<Rightarrow> decode_loop root root code)"

definition decode :: "store \<Rightarrow> string \<Rightarrow> int list" where
  "decode code2cid code = decode_loop code2cid code2cid code"

text \<open>
  A run of insertions, one call of \<^verbatim>\<open>add_code2cid\<close> after the other; an exception
  ends the run.
\<close>

fun add_all :: "store \<Rightarrow> (string \<times> int) list \<Rightarrow> error + store" where
  "add_all d [] = Inr d"
| "add_all d ((code, cid) # rest) =
     (case add_code2cid d code cid of
        Inl e \<Rightarrow> Inl e
      | Inr d' \<Rightarrow> add_all d' rest)"

text \<open>
  The notion of a stored key used in the statements below (it is not a method of the
  source): \<open>stored d key\<close> is the id found by descending from \<open>d\<close> along all the
  bytes of \<open>key\<close>, through dicts only, to an \<^verbatim>\<open>int\<close> at the last byte.
\<close>

fun stored :: "store \<Rightarrow> string \<Rightarrow> int option" where
  "stored d [] = None"
| "stored d [c] = (case map_of d (of_char c) of Some (Cid i) \<Rightarrow> Some i | _ \<Rightarrow> None)"
| "stored d (c # cs) =
     (case map_of d (of_char c) of Some (Dict t) \<Rightarrow> stored t cs | _ \<Rightarrow> None)"

text \<open>
  \<^verbatim>\<open>CMap.use_cmap\<close>: the inner function \<^verbatim>\<open>copy(dst, src)\<close>. For a dict value a
  fresh dict \<^verbatim>\<open>d = {}\<close> is bound to \<^verbatim>\<open>dst[k]\<close> and then filled from the value.
\<close>

fun copy :: "store \<Rightarrow> store \<Rightarrow> store" where
  "copy dst [] = dst"
| "copy dst ((k, Dict v) # src) = copy (AList.update k (Dict (copy [] v)) dst) src"
| "copy dst ((k, Cid v) # src) = copy (AList.update k (Cid v) dst) src"

definition use_cmap :: "store \<Rightarrow> store \<Rightarrow> store" where
  "use_cmap code2cid other = copy code2cid other"

text \<open>
  A Python dict has each key once, at every level; \<open>wf_store\<close> says so of an
  association list.
\<close>

fun wf_store :: "store \<Rightarrow> bool" where
  "wf_store [] = True"
| "wf_store ((k, Dict v) # d) = (k \<notin> fst ` set d \<and> wf_store v \<and> wf_store d)"
| "wf_store ((k, Cid v) # d) = (k \<notin> fst ` set d \<and> wf_store d)"

subsection \<open>The identity codec\<close>

text \<open>
  \<^verbatim>\<open>struct.unpack('>%dH' % n, code)\<close> of the Python library: \<open>n\<close> big-endian
  unsigned 16-bit integers, and \<^verbatim>\<open>struct.error\<close> unless the string has exactly
  \<open>2 * n\<close> bytes.
\<close>

definition unpack_nH :: "nat \<Rightarrow> string \<Rightarrow> error + int list" where
  "unpack_nH n code =
     (if length code = 2 * n
      then Inr (map (\<lambda>i. of_char (code ! (2 * i)) * 256 + of_char (code ! (2 * i + 1))) [0..<n])
      else Inl StructError)"

text \<open>\<^verbatim>\<open>IdentityCMap.decode\<close>; \<^verbatim>\<open>len(code)/2\<close> is the integer division of Python 2.\<close>

definition identity_decode :: "string \<Rightarrow> error + int list" where
  "identity_decode code = unpack_nH (length code div 2) code"

text \<open>
  What the specification describes: one big-endian 16-bit integer per 2-byte chunk,
  a trailing odd byte left out.
\<close>

fun be16_chunks :: "string \<Rightarrow> int list" where
  "be16_chunks (a # b # rest) = (of_char a * 256 + of_char b) # be16_chunks rest"
| "be16_chunks _ = []"

subsection \<open>Operands and helpers of the table builder\<close>

text \<open>
  The objects the stack parser hands over: an integer, a byte string, a name literal
  (\<^verbatim>\<open>PSLiteral\<close>), a keyword (\<^verbatim>\<open>PSKeyword\<close>) or a list.
\<close>

datatype psobj = PInt int | PStr string | PLit string | PKwd string | PList "psobj list"

text \<open>
  Modelled from the spec: \<^verbatim>\<open>nunpack\<close> of \<^verbatim>\<open>utils\<close> is not part of the sources at hand.
  The specification has the bytes "interpreted as big-endian unsigned integers".
\<close>

definition nunpack :: "string \<Rightarrow> int" where
  "nunpack s = foldl (\<lambda>a c. a * 256 + of_char c) 0 s"

text \<open>
  Modelled from the spec: \<^verbatim>\<open>choplist\<close> of \<^verbatim>\<open>utils\<close> is not part of the sources at hand.
  The operands are processed "in fixed-size groups", in push order; operands that do
  not fill a group are left out.
\<close>

fun choplist :: "nat \<Rightarrow> 'a list \<Rightarrow> 'a list list" where
  "choplist n xs =
     (if n = 0 \<or> length xs < n then [] else take n xs # choplist n (drop n xs))"

declare choplist.simps [simp del]

text \<open>
  \<^verbatim>\<open>struct.pack('>L', n)\<close> of the Python library: four big-endian bytes, and
  \<^verbatim>\<open>struct.error\<close> outside of the unsigned 32-bit range.
\<close>

definition pack_L :: "int \<Rightarrow> error + string" where
  "pack_L n =
     (if 0 \<le> n \<and> n < 2 ^ 32
      then Inr [char_of (n div 2 ^ 24), char_of (n div 2 ^ 16), char_of (n div 2 ^ 8), char_of n]
      else Inl StructError)"

text \<open>\<^verbatim>\<open>struct.unpack('>H', code)[0]\<close>.\<close>

definition unpack_H :: "string \<Rightarrow> error + int" where
  "unpack_H code =
     (case code of [a, b] \<Rightarrow> Inr (of_char a * 256 + of_char b) | _ \<Rightarrow> Inl StructError)"

text \<open>
  The slices \<^verbatim>\<open>s[-n:]\<close> and \<^verbatim>\<open>s[:-4]\<close> of Python; \<^verbatim>\<open>s[-0:]\<close> is all of \<^verbatim>\<open>s\<close>.
\<close>

definition slice_last :: "nat \<Rightarrow> string \<Rightarrow> string" where
  "slice_last n s = (if n = 0 then s else drop (length s - n) s)"

definition slice_front :: "string \<Rightarrow> string" where
  "slice_front s = take (length s - 4) s"

subsection \<open>The unicode map\<close>

text \<open>
  \<^verbatim>\<open>FileUnicodeMap.add_cid2unicode\<close> on the dict \<^verbatim>\<open>cid2unicode\<close>, again an
  association list. The glyph name
  table \<^verbatim>\<open>name2unicode\<close> of \<^verbatim>\<open>encodingdb\<close> is a parameter. A value of no known type
  raises TypeError and a byte string that is not two bytes long makes
  \<^verbatim>\<open>unpack('>H', code)\<close> raise, in both cases before the dict is assigned.
\<close>

fun add_cid2unicode ::
  "(string \<Rightarrow> error + int) \<Rightarrow> (int \<times> int) list \<Rightarrow> int \<Rightarrow> psobj \<Rightarrow> error + (int \<times> int) list" where
  "add_cid2unicode name2unicode m cid (PLit name) =
     (case name2unicode name of Inl e \<Rightarrow> Inl e | Inr u \<Rightarrow> Inr (AList.update cid u m))"
| "add_cid2unicode name2unicode m cid (PStr code) =
     (case unpack_H code of Inl e \<Rightarrow> Inl e | Inr u \<Rightarrow> Inr (AList.update cid u m))"
| "add_cid2unicode name2unicode m cid (PInt code) = Inr (AList.update cid code m)"
| "add_cid2unicode name2unicode m cid _ = Inl TypeError"

text \<open>\<^verbatim>\<open>UnicodeMap.get_unicode\<close>.\<close>

definition get_unicode :: "(int \<times> int) list \<Rightarrow> int \<Rightarrow> int option" where
  "get_unicode m cid = map_of m cid"

subsection \<open>The object the parser fills\<close>

text \<open>
  \<^verbatim>\<open>CMapParser.cmap\<close> is a \<^verbatim>\<open>FileCMap\<close> (attributes and \<^verbatim>\<open>code2cid\<close>) or a
  \<^verbatim>\<open>FileUnicodeMap\<close> (attributes and \<^verbatim>\<open>cid2unicode\<close>); a method the object does
  not have raises AttributeError.
\<close>

datatype cmapobj =
    FileCMap "(string \<times> psobj) list" store
  | FileUnicodeMap "(string \<times> psobj) list" "(int \<times> int) list"

fun set_attr :: "cmapobj \<Rightarrow> string \<Rightarrow> psobj \<Rightarrow> cmapobj" where
  "set_attr (FileCMap attrs d) k v = FileCMap (AList.update k v attrs) d"
| "set_attr (FileUnicodeMap attrs m) k v = FileUnicodeMap (AList.update k v attrs) m"

fun cm_add_code2cid :: "cmapobj \<Rightarrow> string \<Rightarrow> int \<Rightarrow> error + cmapobj" where
  "cm_add_code2cid (FileCMap attrs d) code cid =
     (case add_code2cid d code cid of Inl e \<Rightarrow> Inl e | Inr d' \<Rightarrow> Inr (FileCMap attrs d'))"
| "cm_add_code2cid (FileUnicodeMap attrs m) code cid = Inl AttributeError"

fun cm_add_cid2unicode ::
  "(string \<Rightarrow> error + int) \<Rightarrow> cmapobj \<Rightarrow> int \<Rightarrow> psobj \<Rightarrow> error + cmapobj" where
  "cm_add_cid2unicode name2unicode (FileUnicodeMap attrs m) cid code =
     (case add_cid2unicode name2unicode m cid code of
        Inl e \<Rightarrow> Inl e
      | Inr m' \<Rightarrow> Inr (FileUnicodeMap attrs m'))"
| "cm_add_cid2unicode name2unicode (FileCMap attrs d) cid code = Inl AttributeError"

text \<open>
  \<^verbatim>\<open>CMapDB.get_cmap\<close>: the two identity names, else the module of that name, which
  \<open>modules\<close> (the import machinery, a parameter) finds or not; a module gives its
  \<^verbatim>\<open>CODE2CID\<close> and \<^verbatim>\<open>IS_VERTICAL\<close>.
\<close>

datatype anycmap = IdentityCMap bool | PyCMap string store bool

definition get_cmap :: "(string \<Rightarrow> (store \<times> bool) option) \<Rightarrow> string \<Rightarrow> error + anycmap" where
  "get_cmap modules name =
     (if name = ''Identity-H'' then Inr (IdentityCMap False)
      else if name = ''Identity-V'' then Inr (IdentityCMap True)
      else (case modules name of
              None \<Rightarrow> Inl CMapNotFound
            | Some (code2cid, vertical) \<Rightarrow> Inr (PyCMap name code2cid vertical)))"

text \<open>
  \<^verbatim>\<open>self.cmap.use_cmap(...)\<close>: the assertion \<^verbatim>\<open>isinstance(cmap, CMap)\<close> fails on an
  \<^verbatim>\<open>IdentityCMap\<close>, which is not a subclass of \<^verbatim>\<open>CMap\<close>.
\<close>

fun cm_use_cmap :: "cmapobj \<Rightarrow> anycmap \<Rightarrow> error + cmapobj" where
  "cm_use_cmap (FileCMap attrs d) (PyCMap name other vertical) =
     Inr (FileCMap attrs (use_cmap d other))"
| "cm_use_cmap (FileCMap attrs d) (IdentityCMap vertical) = Inl AssertionError"
| "cm_use_cmap (FileUnicodeMap attrs m) other = Inl AttributeError"

subsection \<open>The table builder\<close>

text \<open>
  The state of a \<^verbatim>\<open>CMapParser\<close>: the flag \<^verbatim>\<open>_in_cmap\<close>, the operand stack of the
  stack parser (pairs of a position and an object, the oldest first) and the object
  being filled.
\<close>

record parser =
  in_cmap :: bool
  curstack :: "(int \<times> psobj) list"
  cmap :: cmapobj

text \<open>
  The collaborators outside of the sources at hand, as parameters: the glyph name
  table, \<^verbatim>\<open>literal_name\<close> of the stack parser and the modules of predefined CMaps.
\<close>

record env =
  name2unicode :: "string \<Rightarrow> error + int"
  literal_name :: "psobj \<Rightarrow> error + string"
  modules :: "string \<Rightarrow> (store \<times> bool) option"

text \<open>
  Modelled from the spec: \<^verbatim>\<open>PSStackParser.pop\<close> is not part of the sources at hand.
  It gives "the n most-recently-pushed objects (oldest first)"; with fewer than n
  available the stack state is malformed, which \<^verbatim>\<open>do_keyword\<close> catches as
  PSSyntaxError.
\<close>

definition pop ::
  "nat \<Rightarrow> (int \<times> psobj) list \<Rightarrow> error + ((int \<times> psobj) list \<times> (int \<times> psobj) list)" where
  "pop n st =
     (if length st < n then Inl PSSyntaxError
      else Inr (drop (length st - n) st, take (length st - n) st))"

text \<open>
  The loop of \<^verbatim>\<open>endcidrange\<close>, \<^verbatim>\<open>for i in xrange(e1-s1+1)\<close>, from \<open>i\<close> on; \<open>n\<close> is
  \<^verbatim>\<open>e1-s1+1\<close>.
\<close>

function cidrange_loop ::
  "cmapobj \<Rightarrow> string \<Rightarrow> int \<Rightarrow> nat \<Rightarrow> int \<Rightarrow> int \<Rightarrow> int \<Rightarrow> error + cmapobj" where
  "cidrange_loop cm sprefix s1 vlen cid n i =
     (if i < n then
        (case pack_L (s1 + i) of
           Inl e \<Rightarrow> Inl e
         | Inr p \<Rightarrow>
             (case cm_add_code2cid cm (sprefix @ slice_last vlen p) (cid + i) of
                Inl e \<Rightarrow> Inl e
              | Inr cm' \<Rightarrow> cidrange_loop cm' sprefix s1 vlen cid n (i + 1)))
      else Inr cm)"
  by pat_completeness auto
termination
  by (relation "measure (\<lambda>(cm, sprefix, s1, vlen, cid, n, i). nat (n - i))") auto

declare cidrange_loop.simps [simp del]

text \<open>One group \<^verbatim>\<open>(s,e,cid)\<close> of \<^verbatim>\<open>endcidrange\<close>; \<^verbatim>\<open>continue\<close> leaves the object as it is.\<close>

fun cidrange_group :: "cmapobj \<Rightarrow> psobj list \<Rightarrow> error + cmapobj" where
  "cidrange_group cm [PStr s, PStr e, PInt cid] =
     (if length s \<noteq> length e then Inr cm
      else if slice_front s \<noteq> slice_front e then Inr cm
      else
        let svar = slice_last 4 s; evar = slice_last 4 e;
            s1 = nunpack svar; e1 = nunpack evar
        in cidrange_loop cm (slice_front s) s1 (length svar) cid (e1 - s1 + 1) 0)"
| "cidrange_group cm _ = Inr cm"

text \<open>One group \<^verbatim>\<open>(cid,code)\<close> of \<^verbatim>\<open>endcidchar\<close>.\<close>

fun cidchar_group :: "cmapobj \<Rightarrow> psobj list \<Rightarrow> error + cmapobj" where
  "cidchar_group cm [PStr cid, PStr code] = cm_add_code2cid cm code (nunpack cid)"
| "cidchar_group cm _ = Inr cm"

text \<open>
  The two loops of \<^verbatim>\<open>endbfrange\<close>: over a list \<^verbatim>\<open>code\<close>, where \<^verbatim>\<open>code[i]\<close> raises
  IndexError past the end, and over the codes made from a byte string.
\<close>

function bfrange_list_loop ::
  "(string \<Rightarrow> error + int) \<Rightarrow> cmapobj \<Rightarrow> int \<Rightarrow> psobj list \<Rightarrow> int \<Rightarrow> int \<Rightarrow> error + cmapobj" where
  "bfrange_list_loop n2u cm s1 code n i =
     (if i < n then
        (if nat i < length code then
           (case cm_add_cid2unicode n2u cm (s1 + i) (code ! nat i) of
              Inl e \<Rightarrow> Inl e
            | Inr cm' \<Rightarrow> bfrange_list_loop n2u cm' s1 code n (i + 1))
         else Inl IndexError)
      else Inr cm)"
  by pat_completeness auto
termination
  by (relation "measure (\<lambda>(n2u, cm, s1, code, n, i). nat (n - i))") auto

declare bfrange_list_loop.simps [simp del]

function bfrange_str_loop ::
  "(string \<Rightarrow> error + int) \<Rightarrow> cmapobj \<Rightarrow> int \<Rightarrow> string \<Rightarrow> int \<Rightarrow> nat \<Rightarrow> int \<Rightarrow> int
     \<Rightarrow> error + cmapobj" where
  "bfrange_str_loop n2u cm s1 pfx base vlen n i =
     (if i < n then
        (case pack_L (base + i) of
           Inl e \<Rightarrow> Inl e
         | Inr p \<Rightarrow>
             (case cm_add_cid2unicode n2u cm (s1 + i) (PStr (pfx @ slice_last vlen p)) of
                Inl e \<Rightarrow> Inl e
              | Inr cm' \<Rightarrow> bfrange_str_loop n2u cm' s1 pfx base vlen n (i + 1)))
      else Inr cm)"
  by pat_completeness auto
termination
  by (relation "measure (\<lambda>(n2u, cm, s1, pfx, base, vlen, n, i). nat (n - i))") auto

declare bfrange_str_loop.simps [simp del]

text \<open>
  One group \<^verbatim>\<open>(s,e,code)\<close> of \<^verbatim>\<open>endbfrange\<close>. A \<^verbatim>\<open>code\<close> that is neither a list nor
  a byte string cannot be sliced: \<^verbatim>\<open>code[-4:]\<close> raises TypeError.
\<close>

fun bfrange_group :: "(string \<Rightarrow> error + int) \<Rightarrow> cmapobj \<Rightarrow> psobj list \<Rightarrow> error + cmapobj" where
  "bfrange_group n2u cm [PStr s, PStr e, code] =
     (if length s \<noteq> length e then Inr cm
      else
        let s1 = nunpack s; e1 = nunpack e
        in (case code of
              PList l \<Rightarrow> bfrange_list_loop n2u cm s1 l (e1 - s1 + 1) 0
            | PStr c \<Rightarrow>
                let var = slice_last 4 c
                in bfrange_str_loop n2u cm s1 (slice_front c) (nunpack var) (length var)
                     (e1 - s1 + 1) 0
            | _ \<Rightarrow> Inl TypeError))"
| "bfrange_group n2u cm _ = Inr cm"

text \<open>One group \<^verbatim>\<open>(cid,code)\<close> of \<^verbatim>\<open>endbfchar\<close>.\<close>

fun bfchar_group :: "(string \<Rightarrow> error + int) \<Rightarrow> cmapobj \<Rightarrow> psobj list \<Rightarrow> error + cmapobj" where
  "bfchar_group n2u cm [PStr cid, PStr code] = cm_add_cid2unicode n2u cm (nunpack cid) (PStr code)"
| "bfchar_group n2u cm _ = Inr cm"

text \<open>The loop over the groups; an exception in a group ends it.\<close>

fun for_groups ::
  "(cmapobj \<Rightarrow> psobj list \<Rightarrow> error + cmapobj) \<Rightarrow> cmapobj \<Rightarrow> psobj list list \<Rightarrow> error + cmapobj" where
  "for_groups body cm [] = Inr cm"
| "for_groups body cm (g # gs) =
     (case body cm g of Inl e \<Rightarrow> Inl e | Inr cm' \<Rightarrow> for_groups body cm' gs)"

text \<open>
  The branch \<^verbatim>\<open>def\<close>: \<^verbatim>\<open>pop(2)\<close>, then \<^verbatim>\<open>set_attr(literal_name(k), v)\<close>, with
  PSSyntaxError caught. Unpacking a result that does not hold two pairs would raise
  ValueError.
\<close>

fun do_def :: "env \<Rightarrow> parser \<Rightarrow> error + parser" where
  "do_def ev p =
     (case pop 2 (curstack p) of
        Inl e \<Rightarrow> (if e = PSSyntaxError then Inr p else Inl e)
      | Inr (objs, st) \<Rightarrow>
          (case objs of
             [(pk, k), (pv, v)] \<Rightarrow>
               (case literal_name ev k of
                  Inl e \<Rightarrow> (if e = PSSyntaxError then Inr (p\<lparr>curstack := st\<rparr>) else Inl e)
                | Inr nm \<Rightarrow> Inr (p\<lparr>curstack := st, cmap := set_attr (cmap p) nm v\<rparr>))
           | _ \<Rightarrow> Inl ValueError))"

text \<open>
  The branch \<^verbatim>\<open>usecmap\<close>: \<^verbatim>\<open>pop(1)\<close>, then
  \<^verbatim>\<open>use_cmap(CMapDB.get_cmap(literal_name(cmapname)))\<close>, with PSSyntaxError and
  CMapNotFound caught.
\<close>

fun do_usecmap :: "env \<Rightarrow> parser \<Rightarrow> error + parser" where
  "do_usecmap ev p =
     (case pop 1 (curstack p) of
        Inl e \<Rightarrow> (if e = PSSyntaxError \<or> e = CMapNotFound then Inr p else Inl e)
      | Inr (objs, st) \<Rightarrow>
          (case objs of
             [(pn, cmapname)] \<Rightarrow>
               (case literal_name ev cmapname of
                  Inl e \<Rightarrow>
                    (if e = PSSyntaxError \<or> e = CMapNotFound then Inr (p\<lparr>curstack := st\<rparr>)
                     else Inl e)
                | Inr nm \<Rightarrow>
                    (case get_cmap (modules ev) nm of
                       Inl e \<Rightarrow>
                         (if e = PSSyntaxError \<or> e = CMapNotFound then Inr (p\<lparr>curstack := st\<rparr>)
                          else Inl e)
                     | Inr other \<Rightarrow>
                         (case cm_use_cmap (cmap p) other of
                            Inl e \<Rightarrow>
                              (if e = PSSyntaxError \<or> e = CMapNotFound
                               then Inr (p\<lparr>curstack := st\<rparr>) else Inl e)
                          | Inr cm' \<Rightarrow> Inr (p\<lparr>curstack := st, cmap := cm'\<rparr>))))
           | _ \<Rightarrow> Inl ValueError))"

text \<open>
  A closing keyword of a table: \<^verbatim>\<open>popall()\<close> empties the stack, the objects are
  grouped by \<open>n\<close> and each group goes through \<open>body\<close>.
\<close>

definition drain :: "nat \<Rightarrow> (cmapobj \<Rightarrow> psobj list \<Rightarrow> error + cmapobj) \<Rightarrow> parser \<Rightarrow> error + parser" where
  "drain n body p =
     (case for_groups body (cmap p) (choplist n (map snd (curstack p))) of
        Inl e \<Rightarrow> Inl e
      | Inr cm' \<Rightarrow> Inr (p\<lparr>curstack := [], cmap := cm'\<rparr>))"

text \<open>
  \<^verbatim>\<open>CMapParser.do_keyword(pos, token)\<close>, with \<open>name\<close> the name of the token. The
  last line pushes the keyword back on the stack.
\<close>

definition do_keyword :: "env \<Rightarrow> int \<Rightarrow> string \<Rightarrow> parser \<Rightarrow> error + parser" where
  "do_keyword ev pos name p =
     (if name = ''begincmap'' then Inr (p\<lparr>in_cmap := True, curstack := []\<rparr>)
      else if name = ''endcmap'' then Inr (p\<lparr>in_cmap := False\<rparr>)
      else if \<not> in_cmap p then Inr p
      else if name = ''def'' then do_def ev p
      else if name = ''usecmap'' then do_usecmap ev p
      else if name = ''begincodespacerange'' then Inr (p\<lparr>curstack := []\<rparr>)
      else if name = ''endcodespacerange'' then Inr (p\<lparr>curstack := []\<rparr>)
      else if name = ''begincidrange'' then Inr (p\<lparr>curstack := []\<rparr>)
      else if name = ''endcidrange'' then drain 3 cidrange_group p
      else if name = ''begincidchar'' then Inr (p\<lparr>curstack := []\<rparr>)
      else if name = ''endcidchar'' then drain 2 cidchar_group p
      else if name = ''beginbfrange'' then Inr (p\<lparr>curstack := []\<rparr>)
      else if name = ''endbfrange'' then drain 3 (bfrange_group (name2unicode ev)) p
      else if name = ''beginbfchar'' then Inr (p\<lparr>curstack := []\<rparr>)
      else if name = ''endbfchar'' then drain 2 (bfchar_group (name2unicode ev)) p
      else if name = ''beginnotdefrange'' then Inr (p\<lparr>curstack := []\<rparr>)
      else if name = ''endnotdefrange'' then Inr (p\<lparr>curstack := []\<rparr>)
      else Inr (p\<lparr>curstack := curstack p @ [(pos, PKwd name)]\<rparr>))"

text \<open>
  Sample collaborators for the concrete runs below: a glyph table that knows no name,
  \<^verbatim>\<open>literal_name\<close> on literals only, and no predefined CMap.
\<close>

definition no_names :: "string \<Rightarrow> error + int" where
  "no_names name = Inl KeyError"

definition lit_name :: "psobj \<Rightarrow> error + string" where
  "lit_name x = (case x of PLit name \<Rightarrow> Inr name | _ \<Rightarrow> Inl PSTypeError)"

definition no_modules :: "string \<Rightarrow> (store \<times> bool) option" where
  "no_modules name = None"

definition env0 :: env where
  "env0 = \<lparr>name2unicode = no_names, literal_name = lit_name, modules = no_modules\<rparr>"

text \<open>
  Two notions for the statements about ranges: \<open>uniform n d\<close> says that every
  id of \<open>d\<close> sits at depth \<open>n\<close> (all the keys have \<open>n\<close> bytes), and
  \<open>code2cid_of\<close> reads the store of a \<^verbatim>\<open>FileCMap\<close>.
\<close>

fun uniform :: "nat \<Rightarrow> store \<Rightarrow> bool" where
  "uniform n [] = True"
| "uniform n ((k, Cid i) # d) = (n = 1 \<and> uniform n d)"
| "uniform n ((k, Dict t) # d) = (1 < n \<and> uniform (n - 1) t \<and> uniform n d)"

fun code2cid_of :: "cmapobj \<Rightarrow> store" where
  "code2cid_of (FileCMap attrs d) = d"
| "code2cid_of (FileUnicodeMap attrs m) = []"

section \<open>Insertion and decoding\<close>

lemma stored_decode_loop:
  "stored d k = Some v \<Longrightarrow> decode_loop root d (k @ rest) = v # decode_loop root root rest"
  by (induction d k rule: stored.induct) (auto split: option.splits node.splits)

lemma add_code2cid_stored:
  "add_code2cid d k c = Inr d' \<Longrightarrow> stored d' k = Some c"
  by (induction d k c arbitrary: d' rule: add_code2cid.induct)
     (auto simp: update_conv' split: option.splits node.splits sum.splits)

lemma add_code2cid_other:
  "add_code2cid d k' c = Inr d' \<Longrightarrow> \<not> prefix k' k \<Longrightarrow> stored d k = Some v \<Longrightarrow> stored d' k = Some v"
proof (induction d k' c arbitrary: d' k rule: add_code2cid.induct)
  case (1 d cid)
  then show ?case by simp
next
  case (2 d c cid)
  then show ?case
    by (cases "(d, k)" rule: stored.cases) (auto simp: update_conv' split: option.splits node.splits)
next
  case (3 d c v va cid)
  then show ?case
    by (cases "(d, k)" rule: stored.cases)
       (auto simp: update_conv' split: option.splits node.splits sum.splits if_splits)
qed

lemma add_all_append:
  "add_all d (xs @ ys) = (case add_all d xs of Inl e \<Rightarrow> Inl e | Inr d1 \<Rightarrow> add_all d1 ys)"
  by (induction d xs rule: add_all.induct) (auto split: sum.splits)

lemma add_all_other:
  "add_all d kvs = Inr d' \<Longrightarrow> \<forall>k' \<in> fst ` set kvs. \<not> prefix k' k \<Longrightarrow> stored d k = Some v \<Longrightarrow> stored d' k = Some v"
  by (induction d kvs rule: add_all.induct) (auto split: sum.splits dest: add_code2cid_other)

lemma decode_loop_length: "length (decode_loop root d code) \<le> length code"
  by (induction root d code rule: decode_loop.induct) (auto split: option.splits node.splits)

lemma add_all_stored:
  assumes run: "add_all d0 (xs @ (key, cid) # ys) = Inr d"
    and later: "\<forall>k' \<in> fst ` set ys. \<not> prefix k' key"
  shows "stored d key = Some cid"
proof -
  from run obtain d1 where d1: "add_all d0 xs = Inr d1"
    and rest: "add_all d1 ((key, cid) # ys) = Inr d"
    by (auto simp: add_all_append split: sum.splits)
  from rest obtain d2 where d2: "add_code2cid d1 key cid = Inr d2"
    and ys: "add_all d2 ys = Inr d"
    by (auto split: sum.splits)
  from d2 have st2: "stored d2 key = Some cid" by (rule add_code2cid_stored)
  show ?thesis by (rule add_all_other[OF ys later st2])
qed

text \<open>
  C1. After a run of insertions that all return, a pair \<open>(key, cid)\<close> of the run
  such that no other inserted key is a proper prefix of \<open>key\<close> and no later
  insertion has the same key is decoded from a buffer holding exactly \<open>key\<close> as the
  one-element sequence \<open>[cid]\<close>; such a key is not empty. The store \<open>d0\<close> before
  the run is arbitrary.
\<close>

theorem decode_inserted_key:
  assumes run: "add_all d0 (xs @ (key, cid) # ys) = Inr d"
    and no_prefix: "\<forall>k' \<in> fst ` (set xs \<union> set ys). \<not> strict_prefix k' key"
    and not_again: "\<forall>k' \<in> fst ` set ys. k' \<noteq> key"
  shows "key \<noteq> [] \<and> decode d key = [cid]"
proof -
  have later: "\<forall>k' \<in> fst ` set ys. \<not> prefix k' key"
    using no_prefix not_again by (auto simp: strict_prefix_def)
  have st: "stored d key = Some cid" by (rule add_all_stored[OF run later])
  then have "key \<noteq> []" by auto
  moreover from st have "decode d key = [cid]"
    using stored_decode_loop[of d key cid d "[]"] by (simp add: decode_def)
  ultimately show ?thesis by simp
qed

theorem decode_inserted_key_witness:
  "add_all [] ([(''AB'', 1)] @ (''AC'', 2) # [(''B'', 3)])
     = Inr [(65, Dict [(66, Cid 1), (67, Cid 2)]), (66, Cid 3)]
   \<and> decode [(65, Dict [(66, Cid 1), (67, Cid 2)]), (66, Cid 3)] ''AC'' = [2]"
proof -
  have run: "add_all [] ([(''AB'', 1)] @ (''AC'', 2) # [(''B'', 3)])
     = Inr [(65, Dict [(66, Cid 1), (67, Cid 2)]), (66, Cid 3)]"
    by simp
  have a: "\<forall>k' \<in> fst ` (set [(''AB'', 1::int)] \<union> set [(''B'', 3::int)]). \<not> strict_prefix k' ''AC''"
    by (simp add: strict_prefix_def)
  have b: "\<forall>k' \<in> fst ` set [(''B'', 3::int)]. k' \<noteq> ''AC''" by simp
  from decode_inserted_key[OF run a b] run show ?thesis by simp
qed

text \<open>
  C2. For two keys stored in the trie (by \<open>add_all_stored\<close> every inserted key of
  C1 is one), decoding their concatenation yields the concatenation of what each
  decodes to, the two ids in order. The keys need not even be distinct.
\<close>

theorem decode_concat_keys:
  assumes "stored d k1 = Some v1" and "stored d k2 = Some v2"
  shows "decode d (k1 @ k2) = decode d k1 @ decode d k2 \<and> decode d (k1 @ k2) = [v1, v2]"
proof -
  have 1: "decode d k1 = [v1]"
    using stored_decode_loop[OF assms(1), of d "[]"] by (simp add: decode_def)
  have 2: "decode d k2 = [v2]"
    using stored_decode_loop[OF assms(2), of d "[]"] by (simp add: decode_def)
  have "decode d (k1 @ k2) = v1 # decode d k2"
    using stored_decode_loop[OF assms(1), of d k2] by (simp add: decode_def)
  with 1 2 show ?thesis by simp
qed

theorem decode_concat_keys_witness:
  "add_all [] [(''AB'', 1), (''AC'', 2), (''B'', 3)]
     = Inr [(65, Dict [(66, Cid 1), (67, Cid 2)]), (66, Cid 3)]
   \<and> stored [(65, Dict [(66, Cid 1), (67, Cid 2)]), (66, Cid 3)] ''AC'' = Some 2
   \<and> stored [(65, Dict [(66, Cid 1), (67, Cid 2)]), (66, Cid 3)] ''B'' = Some 3
   \<and> decode [(65, Dict [(66, Cid 1), (67, Cid 2)]), (66, Cid 3)] (''AC'' @ ''B'') = [2, 3]"
proof -
  have a: "stored [(65, Dict [(66, Cid 1), (67, Cid 2)]), (66, Cid 3)] ''AC'' = Some 2"
    by simp
  have b: "stored [(65, Dict [(66, Cid 1), (67, Cid 2)]), (66, Cid 3)] ''B'' = Some 3"
    by simp
  have "decode [(65, Dict [(66, Cid 1), (67, Cid 2)]), (66, Cid 3)] (''AC'' @ ''B'') = [2, 3]"
    using decode_concat_keys[OF a b] by (rule conjunct2)
  with a b show ?thesis by simp
qed

text \<open>
  C3. \<open>decode\<close> is a total function into lists of ids: no input makes it raise.
  When the current node \<open>d\<close> has no entry for the next byte, the byte yields
  nothing and the walk goes on from the root with the following byte; and the
  number of ids never exceeds the number of bytes, from any node.
\<close>

theorem decode_unmatched_byte:
  "(map_of d (of_char c) = None \<longrightarrow> decode_loop root d (c # code) = decode_loop root root code)
   \<and> length (decode_loop root d code) \<le> length code
   \<and> length (decode root code) \<le> length code"
  by (simp add: decode_def decode_loop_length)

theorem decode_unmatched_byte_witness:
  "map_of [(65::int, Cid 1)] (of_char CHR ''B'') = None
   \<and> decode_loop [(65, Cid 1)] [(65, Cid 1)] ''BA'' = decode_loop [(65, Cid 1)] [(65, Cid 1)] ''A''
   \<and> decode [(65, Cid 1)] ''BA'' = [1]
   \<and> length (decode [(65, Cid 1)] ''BA'') \<le> length ''BA''"
  using decode_unmatched_byte[of "[(65, Cid 1)]" "CHR ''B''" "[(65, Cid 1)]" "''A''"]
    decode_unmatched_byte[of "[(65, Cid 1)]" "CHR ''B''" "[(65, Cid 1)]" "''BA''"]
  by (simp add: decode_def)

section \<open>Merging another CMap\<close>

lemma stored_unbound:
  "map_of d (of_char c) = None \<Longrightarrow> stored d (c # cs) = None"
  by (cases cs) auto

lemma stored_Dict:
  "map_of d (of_char c) = Some (Dict t) \<Longrightarrow> stored d (c # cs) = (if cs = [] then None else stored t cs)"
  by (cases cs) auto

lemma stored_Cid:
  "map_of d (of_char c) = Some (Cid i) \<Longrightarrow> stored d (c # cs) = (if cs = [] then Some i else None)"
  by (cases cs) auto

lemma stored_empty: "stored [] key = None"
  by (cases "([]::store, key)" rule: stored.cases) auto

lemma stored_cong_top:
  "map_of d (of_char c) = map_of d' (of_char c) \<Longrightarrow> stored d (c # cs) = stored d' (c # cs)"
  by (cases cs) auto

lemma copy_stored:
  "wf_store src \<Longrightarrow>
   stored (copy dst src) (c # cs) =
     (if of_char c \<in> fst ` set src then stored src (c # cs) else stored dst (c # cs))"
proof (induction dst src arbitrary: c cs rule: copy.induct)
  case (1 dst)
  then show ?case by simp
next
  case (2 dst k v src)
  have wv: "wf_store v" and ws: "wf_store src" and fresh: "k \<notin> fst ` set src"
    using "2.prems" by auto
  have inner: "stored (copy [] v) cs = stored v cs" if "cs \<noteq> []"
  proof -
    from that obtain c' cs' where cs: "cs = c' # cs'" by (cases cs) auto
    show ?thesis
      using "2.IH"(1)[OF wv, of c' cs'] 
      by (auto simp: cs stored_empty stored_unbound map_of_eq_None_iff)
  qed
  show ?case
  proof (cases "of_char c = k")
    case True
    then have "of_char c \<notin> fst ` set src" using fresh by simp
    then show ?thesis
      using "2.IH"(2)[OF ws, of c cs] True inner
      by (simp add: stored_Dict update_conv')
  next
    case False
    then have "stored (AList.update k (Dict (copy [] v)) dst) (c # cs) = stored dst (c # cs)"
      by (intro stored_cong_top) (simp add: update_conv')
    moreover have "stored ((k, Dict v) # src) (c # cs) = stored src (c # cs)"
      using False by (intro stored_cong_top) simp
    ultimately show ?thesis
      using "2.IH"(2)[OF ws, of c cs] False by auto
  qed
next
  case (3 dst k v src)
  have ws: "wf_store src" and fresh: "k \<notin> fst ` set src"
    using "3.prems" by auto
  show ?case
  proof (cases "of_char c = k")
    case True
    then have "of_char c \<notin> fst ` set src" using fresh by simp
    then show ?thesis
      using "3.IH"[OF ws, of c cs] True
      by (simp add: stored_Cid update_conv')
  next
    case False
    then have "stored (AList.update k (Cid v) dst) (c # cs) = stored dst (c # cs)"
      by (intro stored_cong_top) (simp add: update_conv')
    moreover have "stored ((k, Cid v) # src) (c # cs) = stored src (c # cs)"
      using False by (intro stored_cong_top) simp
    ultimately show ?thesis
      using "3.IH"[OF ws, of c cs] False by auto
  qed
qed

text \<open>
  C5, as amended. After \<^verbatim>\<open>A.use_cmap(B)\<close>, with \<open>d\<close> the store of A and \<open>other\<close>
  the store of B: every key stored in B is stored in A with B's id, so B wins where
  both define a key; every key whose first byte is a top-level key of B is in A
  exactly what it is in B; and every key whose first byte is not a top-level key of B
  is in A what it was before. It is the first byte that decides, since \<^verbatim>\<open>copy\<close>
  binds a fresh dict to \<^verbatim>\<open>dst[k]\<close>: what A held under a first byte that B has is
  replaced as a whole.
\<close>

theorem use_cmap_stored:
  assumes "wf_store other"
  shows "(stored other key = Some v \<longrightarrow> stored (use_cmap d other) key = Some v)
       \<and> (key \<noteq> [] \<and> of_char (hd key) \<in> fst ` set other
            \<longrightarrow> stored (use_cmap d other) key = stored other key)
       \<and> (key \<noteq> [] \<and> of_char (hd key) \<notin> fst ` set other
            \<longrightarrow> stored (use_cmap d other) key = stored d key)"
proof (cases key)
  case Nil
  then show ?thesis by simp
next
  case (Cons c cs)
  show ?thesis
    using copy_stored[OF assms, of d c cs]
    by (auto simp: Cons use_cmap_def stored_unbound map_of_eq_None_iff)
qed

theorem use_cmap_stored_witness:
  "wf_store [(0x41, Dict [(0x43, Cid 2)])]
   \<and> stored [(0x41, Dict [(0x43, Cid 2)])] ''AC'' = Some 2
   \<and> stored (use_cmap [(0x41, Cid 7), (0x42, Cid 8)] [(0x41, Dict [(0x43, Cid 2)])]) ''AC'' = Some 2
   \<and> stored (use_cmap [(0x41, Cid 7), (0x42, Cid 8)] [(0x41, Dict [(0x43, Cid 2)])]) ''B'' = Some 8"
proof -
  have wf: "wf_store [(0x41, Dict [(0x43, Cid 2)])]" by simp
  show ?thesis
    using use_cmap_stored[OF wf, of "''AC''" 2 "[(0x41, Cid 7), (0x42, Cid 8)]"]
      use_cmap_stored[OF wf, of "''B''" 8 "[(0x41, Cid 7), (0x42, Cid 8)]"]
    by simp
qed

text \<open>
  The claim as stated fails: A maps the key \<^verbatim>\<open>AB\<close> to 1, B maps \<^verbatim>\<open>AC\<close> to 2 and
  does not define \<^verbatim>\<open>AB\<close>; after the merge A has lost \<^verbatim>\<open>AB\<close>.
\<close>

theorem use_cmap_drops_subtree:
  "stored [(0x41, Dict [(0x42, Cid 1)])] ''AB'' = Some 1
   \<and> stored [(0x41, Dict [(0x43, Cid 2)])] ''AB'' = None
   \<and> stored (use_cmap [(0x41, Dict [(0x42, Cid 1)])] [(0x41, Dict [(0x43, Cid 2)])]) ''AB'' = None
   \<and> decode [(0x41, Dict [(0x42, Cid 1)])] ''AB'' = [1]
   \<and> decode (use_cmap [(0x41, Dict [(0x42, Cid 1)])] [(0x41, Dict [(0x43, Cid 2)])]) ''AB'' = []"
  by (simp add: use_cmap_def decode_def)

section \<open>The identity codec\<close>

lemma be16_chunks_map:
  "length code = 2 * n \<Longrightarrow>
   map (\<lambda>i. of_char (code ! (2 * i)) * 256 + of_char (code ! (2 * i + 1))) [0..<n] = be16_chunks code"
proof (induction code arbitrary: n rule: be16_chunks.induct)
  case (1 a b rest)
  then obtain m where n: "n = Suc m" by (cases n) auto
  with 1 have "length rest = 2 * m" by simp
  from "1.IH"[OF this] show ?case
    by (simp add: n map_upt_Suc del: upt_Suc)
qed simp_all

text \<open>
  C6, as amended. On a byte sequence of even length \<^verbatim>\<open>IdentityCMap.decode\<close> returns
  the big-endian 16-bit integers of the consecutive 2-byte chunks, without any trie;
  on a byte sequence of odd length it raises \<^verbatim>\<open>struct.error\<close>, since
  \<^verbatim>\<open>unpack\<close> takes a string of exactly \<open>2 * (len(code)/2)\<close> bytes.
\<close>

theorem identity_decode_chunks:
  "identity_decode code = (if even (length code) then Inr (be16_chunks code) else Inl StructError)"
proof (cases "even (length code)")
  case True
  then have "length code = 2 * (length code div 2)" by simp
  then show ?thesis
    using True be16_chunks_map[of code "length code div 2"]
    by (simp add: identity_decode_def unpack_nH_def)
next
  case False
  then have "length code \<noteq> 2 * (length code div 2)" by presburger
  then show ?thesis using False by (simp add: identity_decode_def unpack_nH_def)
qed

theorem identity_decode_chunks_witness:
  "identity_decode [CHR 0x00, CHR 0x41, CHR 0x00, CHR 0x42] = Inr [0x41, 0x42]"
  using identity_decode_chunks[of "[CHR 0x00, CHR 0x41, CHR 0x00, CHR 0x42]"] by simp

text \<open>
  The claim as stated fails: on the three bytes 00 41 00 the trailing byte is not
  left out, the call raises.
\<close>

theorem identity_decode_odd:
  "identity_decode [CHR 0x00, CHR 0x41, CHR 0x00] = Inl StructError
   \<and> be16_chunks [CHR 0x00, CHR 0x41, CHR 0x00] = [0x41]"
  by (simp add: identity_decode_def unpack_nH_def)

section \<open>The table builder\<close>

lemma do_keyword_endcidrange:
  "in_cmap p \<Longrightarrow> do_keyword ev pos ''endcidrange'' p = drain 3 cidrange_group p"
  by (simp add: do_keyword_def)

lemma do_keyword_endcidchar:
  "in_cmap p \<Longrightarrow> do_keyword ev pos ''endcidchar'' p = drain 2 cidchar_group p"
  by (simp add: do_keyword_def)

lemma do_keyword_endbfrange:
  "in_cmap p \<Longrightarrow> do_keyword ev pos ''endbfrange'' p = drain 3 (bfrange_group (name2unicode ev)) p"
  by (simp add: do_keyword_def)

lemma do_keyword_endbfchar:
  "in_cmap p \<Longrightarrow> do_keyword ev pos ''endbfchar'' p = drain 2 (bfchar_group (name2unicode ev)) p"
  by (simp add: do_keyword_def)

lemma choplist_Nil: "choplist n [] = []"
  by (subst choplist.simps) auto

lemma choplist_append:
  "0 < n \<Longrightarrow> n dvd length xs \<Longrightarrow> choplist n (xs @ ys) = choplist n xs @ choplist n ys"
proof (induction n xs rule: choplist.induct)
  case (1 n xs)
  show ?case
  proof (cases "xs = []")
    case True
    then show ?thesis by (simp add: choplist_Nil)
  next
    case False
    with "1.prems" have len: "n \<le> length xs" by (auto dest: dvd_imp_le)
    with "1.prems" have dv: "n dvd length (drop n xs)" by (simp add: dvd_diff_nat)
    from len "1.prems" have a: "choplist n xs = take n xs # choplist n (drop n xs)"
      by (subst choplist.simps) simp
    from len "1.prems" have b: "choplist n (xs @ ys) = take n xs # choplist n (drop n xs @ ys)"
      by (subst choplist.simps) simp
    from "1.IH" len "1.prems" dv have "choplist n (drop n xs @ ys) = choplist n (drop n xs) @ choplist n ys"
      by simp
    with a b show ?thesis by simp
  qed
qed

lemma choplist_group:
  "0 < n \<Longrightarrow> length g = n \<Longrightarrow> choplist n (g @ ys) = g # choplist n ys"
  by (subst choplist.simps) simp

lemma for_groups_append:
  "for_groups body cm (gs1 @ gs2) =
     (case for_groups body cm gs1 of Inl e \<Rightarrow> Inl e | Inr cm' \<Rightarrow> for_groups body cm' gs2)"
  by (induction gs1 arbitrary: cm) (auto split: sum.splits)

lemma choplist_split:
  assumes "0 < n" and "n dvd length pre" and "length g = n"
  shows "choplist n (pre @ g @ post) = choplist n pre @ g # choplist n post"
  using choplist_append[OF assms(1,2), of "g @ post"] choplist_group[OF assms(1,3), of post]
  by simp

lemma drain_split:
  assumes "0 < n" and "n dvd length pre" and "length g = n"
  shows "drain n body (p\<lparr>curstack := pre @ g @ post\<rparr>) =
     (case for_groups body (cmap p) (choplist n (map snd pre)) of
        Inl e \<Rightarrow> Inl e
      | Inr cm1 \<Rightarrow>
          (case body cm1 (map snd g) of
             Inl e \<Rightarrow> Inl e
           | Inr cm2 \<Rightarrow> drain n body (p\<lparr>curstack := post, cmap := cm2\<rparr>)))"
proof -
  have "choplist n (map snd pre @ map snd g @ map snd post)
          = choplist n (map snd pre) @ map snd g # choplist n (map snd post)"
    using assms by (intro choplist_split) simp_all
  then show ?thesis
    by (simp add: drain_def for_groups_append split: sum.splits)
qed

lemma drain_pre:
  assumes "0 < n" and "n dvd length pre"
  shows "drain n body (p\<lparr>curstack := pre @ post\<rparr>) =
     (case for_groups body (cmap p) (choplist n (map snd pre)) of
        Inl e \<Rightarrow> Inl e
      | Inr cm1 \<Rightarrow> drain n body (p\<lparr>curstack := post, cmap := cm1\<rparr>))"
  using choplist_append[OF assms(1), of "map snd pre" "map snd post"] assms(2)
  by (simp add: drain_def for_groups_append split: sum.splits)

lemma drain_skip:
  assumes "0 < n" and "n dvd length pre" and "length g = n"
    and "\<And>cm. body cm (map snd g) = Inr cm"
  shows "drain n body (p\<lparr>curstack := pre @ g @ post\<rparr>) = drain n body (p\<lparr>curstack := pre @ post\<rparr>)"
  unfolding drain_split[OF assms(1-3)] drain_pre[OF assms(1,2)]
  by (simp add: assms(4) split: sum.splits)

lemma drain_raise:
  assumes "0 < n" and "n dvd length pre" and "length g = n"
    and "\<And>cm. isl (body cm (map snd g))"
  shows "isl (drain n body (p\<lparr>curstack := pre @ g @ post\<rparr>))"
proof -
  have "isl (case body cm1 (map snd g) of
             Inl e \<Rightarrow> Inl e
           | Inr cm2 \<Rightarrow> drain n body (p\<lparr>curstack := post, cmap := cm2\<rparr>))" for cm1
    using assms(4)[of cm1] by (cases "body cm1 (map snd g)") auto
  then show ?thesis
    unfolding drain_split[OF assms(1-3)] by (auto split: sum.splits)
qed

lemma uniform_Cid: "uniform n d \<Longrightarrow> map_of d k = Some (Cid i) \<Longrightarrow> n = 1"
  by (induction n d rule: uniform.induct) (auto split: if_splits)

lemma uniform_Dict: "uniform n d \<Longrightarrow> map_of d k = Some (Dict t) \<Longrightarrow> 1 < n \<and> uniform (n - 1) t"
  by (induction n d rule: uniform.induct) (auto split: if_splits)

lemma uniform_update_Cid: "uniform (Suc 0) d \<Longrightarrow> uniform (Suc 0) (AList.update k (Cid c) d)"
  by (induction "Suc 0" d rule: uniform.induct) auto

lemma uniform_update_Dict:
  "uniform n d \<Longrightarrow> 1 < n \<Longrightarrow> uniform (n - 1) t \<Longrightarrow> uniform n (AList.update k (Dict t) d)"
  by (induction n d rule: uniform.induct) auto

lemma add_code2cid_uniform:
  "uniform (length key) d \<Longrightarrow> key \<noteq> [] \<Longrightarrow>
   \<exists>d'. add_code2cid d key c = Inr d' \<and> uniform (length key) d'"
proof (induction d key c rule: add_code2cid.induct)
  case (1 d cid)
  then show ?case by simp
next
  case (2 d c cid)
  then show ?case by (simp add: uniform_update_Cid)
next
  case (3 d c v va cid)
  show ?case
  proof (cases "map_of d (of_char c)")
    case None
    from "3.IH"(1)[OF None] obtain t' where
      "add_code2cid [] (v # va) cid = Inr t'" "uniform (length (v # va)) t'" by auto
    then show ?thesis using None "3.prems"
      by (auto intro!: uniform_update_Dict)
  next
    case (Some nd)
    show ?thesis
    proof (cases nd)
      case (Cid i)
      with Some "3.prems" uniform_Cid[of "length (c # v # va)" d "of_char c" i]
      show ?thesis by simp
    next
      case (Dict t)
      with Some "3.prems" uniform_Dict[of "length (c # v # va)" d "of_char c" t]
      have ut: "uniform (length (v # va)) t" by simp
      from "3.IH"(2)[OF Some Dict ut] obtain t' where
        "add_code2cid t (v # va) cid = Inr t'" "uniform (length (v # va)) t'" by auto
      then show ?thesis using Some Dict "3.prems"
        by (auto intro!: uniform_update_Dict)
    qed
  qed
qed

lemma pack_L_length: "pack_L n = Inr p \<Longrightarrow> length p = 4"
  by (auto simp: pack_L_def split: if_splits)

lemma cidrange_loop_run:
  assumes vl: "0 < vlen" "vlen \<le> 4" and lo: "0 \<le> s1" and hi: "s1 + n \<le> 2 ^ 32"
  shows "0 \<le> i \<Longrightarrow> i < n \<Longrightarrow> uniform (length sprefix + vlen) d \<Longrightarrow>
    \<exists>d' p. cidrange_loop (FileCMap attrs d) sprefix s1 vlen cid n i = Inr (FileCMap attrs d')
        \<and> uniform (length sprefix + vlen) d'
        \<and> pack_L (s1 + (n - 1)) = Inr p
        \<and> stored d' (sprefix @ slice_last vlen p) = Some (cid + (n - 1))"
proof (induction "nat (n - i)" arbitrary: i d)
  case 0
  then show ?case by simp
next
  case (Suc k)
  from Suc.prems lo hi obtain p where p: "pack_L (s1 + i) = Inr p"
    by (auto simp: pack_L_def)
  then have lp: "length p = 4" by (rule pack_L_length)
  let ?key = "sprefix @ slice_last vlen p"
  have len: "length ?key = length sprefix + vlen"
    using vl lp by (simp add: slice_last_def)
  then have ne: "?key \<noteq> []" using vl by auto
  from add_code2cid_uniform[of ?key d "cid + i"] Suc.prems(3) len ne
  obtain d1 where d1: "add_code2cid d ?key (cid + i) = Inr d1"
    and u1: "uniform (length sprefix + vlen) d1" by auto
  have step: "cidrange_loop (FileCMap attrs d) sprefix s1 vlen cid n i
      = cidrange_loop (FileCMap attrs d1) sprefix s1 vlen cid n (i + 1)"
    using Suc.prems(2) p d1 by (subst cidrange_loop.simps) simp
  show ?case
  proof (cases "i + 1 < n")
    case True
    have "k = nat (n - (i + 1))" using Suc.hyps(2) by simp
    from Suc.hyps(1)[OF this _ True u1] Suc.prems(1) step show ?thesis by simp
  next
    case False
    with Suc.prems(2) have eq: "i + 1 = n" by simp
    then have last: "n - 1 = i" by simp
    have "cidrange_loop (FileCMap attrs d1) sprefix s1 vlen cid n (i + 1) = Inr (FileCMap attrs d1)"
      using eq by (subst cidrange_loop.simps) simp
    with step u1 p add_code2cid_stored[OF d1] last show ?thesis by simp
  qed
qed

lemma drain_Nil: "drain n body (p\<lparr>curstack := []\<rparr>) = Inr (p\<lparr>curstack := []\<rparr>)"
  by (simp add: drain_def choplist_Nil)

subsection \<open>Ranges of character ids\<close>

text \<open>
  C4, as amended. At \<^verbatim>\<open>endcidrange\<close>, a group (start code, end code, start id)
  whose codes differ in their leading bytes (all bytes except the last 4 of each) is
  discarded without an error and without any insertion: the keyword does what it does
  without the group, and with the group alone on the stack the object is left as it
  was. The lengths of the two codes do not matter for this. Codes of 4 bytes or less
  have no leading bytes, so they never mismatch: start 01 00 00 00 and end
  02 00 00 01 is a range that is expanded, not discarded; a group that is discarded
  is start 01 00 00 00 00 and end 02 00 00 00 01.
\<close>

theorem endcidrange_prefix_mismatch:
  assumes inside: "in_cmap p" and aligned: "3 dvd length pre"
    and stack: "curstack p = pre @ [(i, PStr s), (j, PStr e), (k, PInt cid)] @ post"
    and mismatch: "slice_front s \<noteq> slice_front e"
  shows "do_keyword ev pos ''endcidrange'' p
           = do_keyword ev pos ''endcidrange'' (p\<lparr>curstack := pre @ post\<rparr>)
       \<and> (pre = [] \<and> post = [] \<longrightarrow>
            do_keyword ev pos ''endcidrange'' p = Inr (p\<lparr>curstack := []\<rparr>))"
proof -
  let ?g = "[(i, PStr s), (j, PStr e), (k, PInt cid)]"
  have skip: "cidrange_group cm (map snd ?g) = Inr cm" for cm
    using mismatch by simp
  have "drain 3 cidrange_group (p\<lparr>curstack := pre @ ?g @ post\<rparr>)
          = drain 3 cidrange_group (p\<lparr>curstack := pre @ post\<rparr>)"
    using drain_skip[where n = 3 and pre = pre and g = ?g and body = cidrange_group and p = p
        and post = post] aligned skip by simp
  moreover have "p\<lparr>curstack := pre @ ?g @ post\<rparr> = p" using stack by simp
  ultimately have eq: "do_keyword ev pos ''endcidrange'' p
           = do_keyword ev pos ''endcidrange'' (p\<lparr>curstack := pre @ post\<rparr>)"
    using inside by (simp add: do_keyword_endcidrange)
  then show ?thesis
    using inside by (auto simp: do_keyword_endcidrange drain_Nil)
qed

theorem endcidrange_prefix_mismatch_witness:
  "do_keyword env0 0 ''endcidrange''
     \<lparr>in_cmap = True,
      curstack = [(0, PStr [CHR 0x01, CHR 0x00, CHR 0x00, CHR 0x00, CHR 0x00]),
                  (1, PStr [CHR 0x02, CHR 0x00, CHR 0x00, CHR 0x00, CHR 0x01]), (2, PInt 0)],
      cmap = FileCMap [] []\<rparr>
   = Inr \<lparr>in_cmap = True, curstack = [], cmap = FileCMap [] []\<rparr>"
  using endcidrange_prefix_mismatch[of
      "\<lparr>in_cmap = True,
        curstack = [(0, PStr [CHR 0x01, CHR 0x00, CHR 0x00, CHR 0x00, CHR 0x00]),
                    (1, PStr [CHR 0x02, CHR 0x00, CHR 0x00, CHR 0x00, CHR 0x01]), (2, PInt 0)],
        cmap = FileCMap [] []\<rparr>"
      "[]" 0 "[CHR 0x01, CHR 0x00, CHR 0x00, CHR 0x00, CHR 0x00]"
      1 "[CHR 0x02, CHR 0x00, CHR 0x00, CHR 0x00, CHR 0x01]" 2 0 "[]" env0 0,
      THEN conjunct2]
  by (simp add: slice_front_def)

text \<open>
  The claim as stated fails on its own example: for start 01 00 00 00 and end
  02 00 00 01 the keyword returns without an exception and the store then maps the
  end code 02 00 00 01 to the start id plus 16777217.
\<close>

theorem endcidrange_example_inserts:
  "\<not> isl (do_keyword env0 0 ''endcidrange''
       \<lparr>in_cmap = True,
        curstack = [(0, PStr [CHR 0x01, CHR 0x00, CHR 0x00, CHR 0x00]),
                    (1, PStr [CHR 0x02, CHR 0x00, CHR 0x00, CHR 0x01]), (2, PInt 0)],
        cmap = FileCMap [] []\<rparr>)
   \<and> decode (code2cid_of (cmap (projr (do_keyword env0 0 ''endcidrange''
       \<lparr>in_cmap = True,
        curstack = [(0, PStr [CHR 0x01, CHR 0x00, CHR 0x00, CHR 0x00]),
                    (1, PStr [CHR 0x02, CHR 0x00, CHR 0x00, CHR 0x01]), (2, PInt 0)],
        cmap = FileCMap [] []\<rparr>))))
       [CHR 0x02, CHR 0x00, CHR 0x00, CHR 0x01] = [16777217]"
proof -
  have "uniform (length ([]::string) + 4) []" by simp
  from cidrange_loop_run[of 4 16777216 16777218 0 "[]" "[]" "[]" 0, OF _ _ _ _ _ _ this]
  obtain d' p where run: "cidrange_loop (FileCMap [] []) [] 16777216 4 0 16777218 0 = Inr (FileCMap [] d')"
    and p: "pack_L 33554433 = Inr p"
    and st: "stored d' ([] @ slice_last 4 p) = Some (0 + (16777218 - 1))"
    by auto
  have "pack_L 33554433 = Inr [CHR 0x02, CHR 0x00, CHR 0x00, CHR 0x01]"
    by code_simp
  with p have "p = [CHR 0x02, CHR 0x00, CHR 0x00, CHR 0x01]" by simp
  with st have st': "stored d' [CHR 0x02, CHR 0x00, CHR 0x00, CHR 0x01] = Some 16777217"
    by (simp add: slice_last_def)
  have dec: "decode d' [CHR 0x02, CHR 0x00, CHR 0x00, CHR 0x01] = [16777217]"
    using stored_decode_loop[OF st', of d' "[]"] by (simp add: decode_def)
  have grp: "cidrange_group (FileCMap [] [])
       [PStr [CHR 0x01, CHR 0x00, CHR 0x00, CHR 0x00],
        PStr [CHR 0x02, CHR 0x00, CHR 0x00, CHR 0x01], PInt 0] = Inr (FileCMap [] d')"
  proof -
    have four: "Suc (Suc (Suc (Suc 0))) = (4::nat)" by simp
    show ?thesis
      using run by (simp add: slice_front_def slice_last_def nunpack_def four)
  qed
  have "do_keyword env0 0 ''endcidrange''
       \<lparr>in_cmap = True,
        curstack = [(0, PStr [CHR 0x01, CHR 0x00, CHR 0x00, CHR 0x00]),
                    (1, PStr [CHR 0x02, CHR 0x00, CHR 0x00, CHR 0x01]), (2, PInt 0)],
        cmap = FileCMap [] []\<rparr>
     = Inr \<lparr>in_cmap = True, curstack = [], cmap = FileCMap [] d'\<rparr>"
    using grp by (simp add: do_keyword_endcidrange drain_def choplist_group[of 3 _ "[]", simplified] choplist_Nil)
  with dec show ?thesis by simp
qed








subsection \<open>Single character ids\<close>

text \<open>
  C7. The claim does not hold of the code: \<^verbatim>\<open>endcidchar\<close> reads a group as
  \<^verbatim>\<open>(cid, code)\<close>, asks both operands to be byte strings and calls
  \<^verbatim>\<open>add_code2cid(code, nunpack(cid))\<close>, the order and the guard of \<^verbatim>\<open>endbfchar\<close>.
  A group of a byte-string code followed by an integer id, here the code \<^verbatim>\<open>A\<close> and
  the id 5, is therefore skipped: the keyword returns, the store stays empty and
  \<^verbatim>\<open>A\<close> decodes to nothing. The sibling \<^verbatim>\<open>endcidrange\<close> takes the codes first and
  an integer id last: on the range from \<^verbatim>\<open>A\<close> to \<^verbatim>\<open>A\<close> with the id 5 it maps
  \<^verbatim>\<open>A\<close> to 5.
\<close>

theorem endcidchar_drops_code_id_group:
  "do_keyword env0 0 ''endcidchar''
     \<lparr>in_cmap = True, curstack = [(0, PStr ''A''), (1, PInt 5)], cmap = FileCMap [] []\<rparr>
   = Inr \<lparr>in_cmap = True, curstack = [], cmap = FileCMap [] []\<rparr>
   \<and> decode [] ''A'' = []
   \<and> do_keyword env0 0 ''endcidrange''
     \<lparr>in_cmap = True, curstack = [(0, PStr ''A''), (1, PStr ''A''), (2, PInt 5)],
      cmap = FileCMap [] []\<rparr>
   = Inr \<lparr>in_cmap = True, curstack = [], cmap = FileCMap [] [(65, Cid 5)]\<rparr>
   \<and> decode [(65, Cid 5)] ''A'' = [5]"
proof -
  have one: "nunpack ''A'' = 65"
    by (simp add: nunpack_def)
  have pk: "pack_L 65 = Inr [CHR 0x00, CHR 0x00, CHR 0x00, CHR ''A'']"
    by code_simp
  have loop: "cidrange_loop (FileCMap [] []) [] 65 1 5 1 0 = Inr (FileCMap [] [(65, Cid 5)])"
    by (simp add: cidrange_loop.simps[of _ _ _ _ _ _ 0] cidrange_loop.simps[of _ _ _ _ _ _ 1]
        pk slice_last_def)
  have grp: "cidrange_group (FileCMap [] []) [PStr ''A'', PStr ''A'', PInt 5]
      = Inr (FileCMap [] [(65, Cid 5)])"
    using loop by (simp add: slice_front_def slice_last_def one)
  have range: "do_keyword env0 0 ''endcidrange''
     \<lparr>in_cmap = True, curstack = [(0, PStr ''A''), (1, PStr ''A''), (2, PInt 5)],
      cmap = FileCMap [] []\<rparr>
   = Inr \<lparr>in_cmap = True, curstack = [], cmap = FileCMap [] [(65, Cid 5)]\<rparr>"
    using grp
    by (simp add: do_keyword_endcidrange drain_def choplist_group[of 3 _ "[]", simplified]
        choplist_Nil del: cidrange_group.simps)
  have char: "do_keyword env0 0 ''endcidchar''
     \<lparr>in_cmap = True, curstack = [(0, PStr ''A''), (1, PInt 5)], cmap = FileCMap [] []\<rparr>
   = Inr \<lparr>in_cmap = True, curstack = [], cmap = FileCMap [] []\<rparr>"
    by (simp add: do_keyword_endcidchar drain_def choplist_group[of 2 _ "[]", simplified]
        choplist_Nil)
  from char range show ?thesis by (simp add: decode_def)
qed

subsection \<open>The end of a CMap\<close>

text \<open>
  C8, as amended. The keyword \<^verbatim>\<open>endcmap\<close> returns with the flag \<^verbatim>\<open>_in_cmap\<close>
  cleared, whatever it was, and leaves the operand stack and the object being filled
  as they were; it is \<^verbatim>\<open>begincmap\<close> that calls \<^verbatim>\<open>popall\<close>.
\<close>

theorem endcmap_keeps_stack:
  "do_keyword ev pos ''endcmap'' p = Inr (p\<lparr>in_cmap := False\<rparr>)
   \<and> \<not> in_cmap (p\<lparr>in_cmap := False\<rparr>)
   \<and> curstack (p\<lparr>in_cmap := False\<rparr>) = curstack p
   \<and> cmap (p\<lparr>in_cmap := False\<rparr>) = cmap p"
  by (simp add: do_keyword_def)

theorem endcmap_keeps_stack_witness:
  "do_keyword env0 0 ''endcmap'' \<lparr>in_cmap = True, curstack = [(7, PStr ''A'')], cmap = FileCMap [] []\<rparr>
     = Inr \<lparr>in_cmap = False, curstack = [(7, PStr ''A'')], cmap = FileCMap [] []\<rparr>"
  using endcmap_keeps_stack[of env0 0
      "\<lparr>in_cmap = True, curstack = [(7, PStr ''A'')], cmap = FileCMap [] []\<rparr>"]
  by simp

text \<open>
  The claim as stated fails: with one operand on the stack, \<^verbatim>\<open>endcmap\<close> leaves
  that operand on the stack.
\<close>

theorem endcmap_stack_not_emptied:
  "do_keyword env0 0 ''endcmap'' \<lparr>in_cmap = True, curstack = [(0, PInt 1)], cmap = FileCMap [] []\<rparr>
     = Inr \<lparr>in_cmap = False, curstack = [(0, PInt 1)], cmap = FileCMap [] []\<rparr>"
  by (simp add: do_keyword_def)

subsection \<open>Byte strings of the unicode map\<close>

lemma unpack_H_wrong_length: "length code \<noteq> 2 \<Longrightarrow> unpack_H code = Inl StructError"
  by (auto simp: unpack_H_def split: list.splits)

lemma template_length:
  "length q = 4 \<Longrightarrow>
   length (slice_front code @ slice_last (length (slice_last 4 code)) q)
     = (if code = [] then 4 else length code)"
  by (cases code) (auto simp: slice_front_def slice_last_def)

lemma cm_add_cid2unicode_wrong_length:
  "length code \<noteq> 2 \<Longrightarrow> isl (cm_add_cid2unicode n2u cm cid (PStr code))"
  by (cases cm) (simp_all add: unpack_H_wrong_length)

lemma bfchar_group_wrong_length:
  "length code \<noteq> 2 \<Longrightarrow> isl (bfchar_group n2u cm [PStr c, PStr code])"
  by (simp add: cm_add_cid2unicode_wrong_length)

lemma bfrange_group_wrong_length:
  assumes "length code \<noteq> 2" and "length s = length e" and "nunpack s \<le> nunpack e"
  shows "isl (bfrange_group n2u cm [PStr s, PStr e, PStr code])"
proof -
  let ?n = "nunpack e - nunpack s + 1"
  let ?vlen = "length (slice_last 4 code)"
  have pos: "0 < ?n" using assms(3) by simp
  have "isl (bfrange_str_loop n2u cm (nunpack s) (slice_front code)
               (nunpack (slice_last 4 code)) ?vlen ?n 0)"
  proof (cases "pack_L (nunpack (slice_last 4 code) + 0)")
    case (Inl err)
    then show ?thesis using pos by (subst bfrange_str_loop.simps) simp
  next
    case (Inr q)
    then have "length q = 4" by (rule pack_L_length)
    then have "length (slice_front code @ slice_last ?vlen q) \<noteq> 2"
      using assms(1) by (simp only: template_length split: if_splits) auto
    then have "isl (cm_add_cid2unicode n2u cm (nunpack s + 0)
                 (PStr (slice_front code @ slice_last ?vlen q)))"
      by (rule cm_add_cid2unicode_wrong_length)
    then show ?thesis using pos Inr
      by (subst bfrange_str_loop.simps) (auto split: sum.splits)
  qed
  then show ?thesis using assms(2) by (simp add: Let_def)
qed

text \<open>
  C10. For every cid and every byte string that is not exactly two bytes long,
  \<^verbatim>\<open>add_cid2unicode\<close> raises (\<^verbatim>\<open>struct.error\<close>, from \<^verbatim>\<open>unpack('>H', code)\<close>) and
  returns no store. So \<^verbatim>\<open>endbfchar\<close> raises when one of its groups has such a
  replacement, and so does \<^verbatim>\<open>endbfrange\<close> when a group with codes of equal length
  and a range that is not empty has such a byte string as its replacement: the entry
  is not skipped. With a \<^verbatim>\<open>FileCMap\<close> as the object the exception is the
  AttributeError of the missing method.
\<close>

theorem add_cid2unicode_wrong_length:
  assumes "length code \<noteq> 2"
  shows "add_cid2unicode n2u m cid (PStr code) = Inl StructError
       \<and> (in_cmap p \<and> even (length pre)
            \<and> curstack p = pre @ [(i, PStr c), (j, PStr code)] @ post \<longrightarrow>
          isl (do_keyword ev pos ''endbfchar'' p))
       \<and> (in_cmap p \<and> 3 dvd length pre
            \<and> curstack p = pre @ [(i, PStr s), (j, PStr e), (k, PStr code)] @ post
            \<and> length s = length e \<and> nunpack s \<le> nunpack e \<longrightarrow>
          isl (do_keyword ev pos ''endbfrange'' p))"
proof (intro conjI impI)
  show "add_cid2unicode n2u m cid (PStr code) = Inl StructError"
    using assms by (simp add: unpack_H_wrong_length)
next
  let ?g = "[(i, PStr c), (j, PStr code)]"
  assume a: "in_cmap p \<and> even (length pre) \<and> curstack p = pre @ ?g @ post"
  then have p: "p\<lparr>curstack := pre @ ?g @ post\<rparr> = p" by simp
  have "isl (bfchar_group (name2unicode ev) cm (map snd ?g))" for cm
    using bfchar_group_wrong_length[OF assms] by simp
  then have "isl (drain 2 (bfchar_group (name2unicode ev)) (p\<lparr>curstack := pre @ ?g @ post\<rparr>))"
    using drain_raise[where n = 2 and pre = pre and g = ?g
        and body = "bfchar_group (name2unicode ev)" and p = p and post = post] a
    by simp
  then have "isl (drain 2 (bfchar_group (name2unicode ev)) p)" by (simp only: p)
  with a show "isl (do_keyword ev pos ''endbfchar'' p)"
    by (simp add: do_keyword_endbfchar)
next
  let ?g = "[(i, PStr s), (j, PStr e), (k, PStr code)]"
  assume a: "in_cmap p \<and> 3 dvd length pre \<and> curstack p = pre @ ?g @ post
      \<and> length s = length e \<and> nunpack s \<le> nunpack e"
  then have p: "p\<lparr>curstack := pre @ ?g @ post\<rparr> = p" by simp
  have "isl (bfrange_group (name2unicode ev) cm (map snd ?g))" for cm
    using bfrange_group_wrong_length[OF assms, of s e "name2unicode ev" cm] a
    by (simp del: bfrange_group.simps)
  then have "isl (drain 3 (bfrange_group (name2unicode ev)) (p\<lparr>curstack := pre @ ?g @ post\<rparr>))"
    using drain_raise[where n = 3 and pre = pre and g = ?g
        and body = "bfrange_group (name2unicode ev)" and p = p and post = post] a
    by simp
  then have "isl (drain 3 (bfrange_group (name2unicode ev)) p)" by (simp only: p)
  with a show "isl (do_keyword ev pos ''endbfrange'' p)"
    by (simp add: do_keyword_endbfrange)
qed

theorem add_cid2unicode_wrong_length_witness:
  "length [CHR 0x00, CHR 0x00, CHR 0x41] \<noteq> 2
   \<and> add_cid2unicode no_names [] 7 (PStr [CHR 0x00, CHR 0x00, CHR 0x41]) = Inl StructError
   \<and> isl (do_keyword env0 0 ''endbfchar''
       \<lparr>in_cmap = True,
        curstack = [(0, PStr [CHR 0x07]), (1, PStr [CHR 0x00, CHR 0x00, CHR 0x41])],
        cmap = FileUnicodeMap [] []\<rparr>)"
proof -
  have l: "length [CHR 0x00, CHR 0x00, CHR 0x41] \<noteq> 2" by simp
  note t = add_cid2unicode_wrong_length[OF l, where n2u = no_names and m = "[]" and cid = 7
      and pre = "[]" and post = "[]" and ev = env0 and pos = 0 and i = 0 and j = 1
      and c = "[CHR 0x07]"
      and p = "\<lparr>in_cmap = True,
        curstack = [(0, PStr [CHR 0x07]), (1, PStr [CHR 0x00, CHR 0x00, CHR 0x41])],
        cmap = FileUnicodeMap [] []\<rparr>"]
  from t l show ?thesis by simp
qed

end
